theory Spec2Isabelle
  imports Complex_Main
begin

section \<open>The chat screen of KIVY_CHAT_APP\<close>

text \<open>
  A shallow embedding of \<^verbatim>\<open>ModernChatScreen\<close> (src/chat_ui/screens/chat_screen.py):
  the message history, the chunk batching, the scroll throttle and \<^verbatim>\<open>send_message\<close>.

  Conventions of the model.
  \<^item> Text is a \<open>string\<close>; one \<open>char\<close> stands for one code point below 256, so that
    \<open>length\<close>, \<open>take\<close> and \<open>@\<close> are Python's \<^verbatim>\<open>len\<close>, slicing and \<^verbatim>\<open>+\<close> on such text.
  \<^item> Every \<^verbatim>\<open>ModernBubble\<close> created lives in a store (\<open>widgets\<close>); a reference to a
    bubble is its index there. The history and \<^verbatim>\<open>current_bubble\<close> hold references, as
    the Python attributes do, so that a bubble removed from the history can still be
    written through \<^verbatim>\<open>current_bubble\<close>.
  \<^item> \<^verbatim>\<open>self.messages.children\<close> is Kivy's child list: \<^verbatim>\<open>add_widget\<close> inserts at index 0,
    so the list is newest first and \<^verbatim>\<open>children[-1]\<close> is the oldest child. The last
    entry of the history, in the order of insertion, is the head of this list.
  \<^item> Time is a real number of seconds. Each operation that reads \<^verbatim>\<open>time.time()\<close> or
    schedules on the Kivy \<^verbatim>\<open>Clock\<close> takes the time of the call as an argument.
  \<^item> The \<^verbatim>\<open>Clock\<close> is the list of the events scheduled and not yet run, each with the
    time it falls due (time of scheduling plus the timeout given to \<^verbatim>\<open>schedule_once\<close>).
  \<^item> Of the input field the model keeps its text and its focus.
  \<^item> Three fields record effects that leave the screen object: the number of scrolls
    performed (\<^verbatim>\<open>scroll_view.scroll_y = 0\<close>), the texts handed to
    \<^verbatim>\<open>_append_chunk_batch\<close> by the flush, and the messages for which a sender thread
    was started.
\<close>

subsection \<open>Data\<close>

text \<open>\<^verbatim>\<open>ModernBubble(text, is_user)\<close>: the label text and the side of the conversation.\<close>

record bubble =
  label_text :: string
  is_user :: bool

text \<open>The callbacks that the screen hands to \<^verbatim>\<open>Clock.schedule_once\<close>.\<close>

datatype task = DoThrottledScroll | ProcessBatchedChunks | FocusInput

type_synonym clock_event = "real \<times> task"

record screen =
  widgets :: "bubble list"
  messages :: "nat list"
  current_bubble :: "nat option"
  backend_available :: bool
  text_input :: string
  input_focus :: bool
  scroll_scheduled :: bool
  pending_scroll_event :: "clock_event option"
  last_scroll_time :: real
  scroll_throttle_delay :: real
  pending_chunks :: "string list"
  text_update_scheduled :: bool
  text_batch_delay :: real
  max_messages :: int
  clock :: "clock_event list"
  scroll_count :: nat
  delivered :: "string list"
  started_sends :: "string list"

text \<open>
  The state that \<^verbatim>\<open>__init__\<close> builds, for the fields of the model:
  \<^verbatim>\<open>Config.SCROLL_THROTTLE_MS\<close>, \<^verbatim>\<open>Config.TEXT_BATCH_MS\<close>, \<^verbatim>\<open>Config.MAX_MESSAGE_HISTORY\<close> and
  \<^verbatim>\<open>Config.WELCOME_MESSAGE\<close> come from a module that is not part of the sources and are
  parameters. The history holds the welcome bubble. The start-up events of
  \<^verbatim>\<open>__init__\<close> (backend test, connection monitor, first forced scroll) are not in the
  clock of the model.
\<close>

definition new_screen :: "real \<Rightarrow> real \<Rightarrow> int \<Rightarrow> string \<Rightarrow> screen" where
  "new_screen scroll_throttle_ms text_batch_ms max_message_history welcome_message =
     \<lparr> widgets = [\<lparr> label_text = welcome_message, is_user = False \<rparr>],
       messages = [0],
       current_bubble = None,
       backend_available = False,
       text_input = [],
       input_focus = False,
       scroll_scheduled = False,
       pending_scroll_event = None,
       last_scroll_time = 0,
       scroll_throttle_delay = scroll_throttle_ms / 1000,
       pending_chunks = [],
       text_update_scheduled = False,
       text_batch_delay = text_batch_ms / 1000,
       max_messages = max_message_history,
       clock = [],
       scroll_count = 0,
       delivered = [],
       started_sends = [] \<rparr>"

subsection \<open>Kivy primitives\<close>

text \<open>\<^verbatim>\<open>ModernBubble(text, is_user)\<close>: a new object; its reference is the next free index.\<close>

definition new_bubble :: "string \<Rightarrow> bool \<Rightarrow> screen \<Rightarrow> nat \<times> screen" where
  "new_bubble txt usr s =
     (length (widgets s),
      s\<lparr> widgets := widgets s @ [\<lparr> label_text = txt, is_user = usr \<rparr>] \<rparr>)"

text \<open>\<^verbatim>\<open>self.messages.add_widget(w)\<close>: Kivy inserts at index 0 of \<^verbatim>\<open>children\<close>.\<close>

definition add_widget :: "nat \<Rightarrow> screen \<Rightarrow> screen" where
  "add_widget w s = s\<lparr> messages := w # messages s \<rparr>"

text \<open>\<^verbatim>\<open>remove_widget(w)\<close>: Kivy removes \<open>w\<close> from \<^verbatim>\<open>children\<close> (\<^verbatim>\<open>list.remove\<close>).\<close>

definition remove_widget :: "nat \<Rightarrow> nat list \<Rightarrow> nat list" where
  "remove_widget w ch = remove1 w ch"

text \<open>\<^verbatim>\<open>ModernBubble.update_text\<close>: \<^verbatim>\<open>self.label.text = text\<close>.\<close>

definition update_text :: "nat \<Rightarrow> string \<Rightarrow> screen \<Rightarrow> screen" where
  "update_text b txt s =
     s\<lparr> widgets := (widgets s)[b := (widgets s ! b)\<lparr> label_text := txt \<rparr>] \<rparr>"

text \<open>\<^verbatim>\<open>Clock.schedule_once(callback, timeout)\<close>, called at time \<open>now\<close>.\<close>

definition schedule_once :: "task \<Rightarrow> real \<Rightarrow> real \<Rightarrow> screen \<Rightarrow> screen" where
  "schedule_once cb timeout now s = s\<lparr> clock := clock s @ [(now + timeout, cb)] \<rparr>"

subsection \<open>Scroll throttle\<close>

text \<open>\<^verbatim>\<open>_do_scroll\<close>: the scroll view exists from \<^verbatim>\<open>_setup_ui\<close> on, so the scroll is performed.\<close>

definition do_scroll :: "screen \<Rightarrow> screen" where
  "do_scroll s = s\<lparr> scroll_count := Suc (scroll_count s) \<rparr>"

definition scroll_to_bottom :: "bool \<Rightarrow> real \<Rightarrow> screen \<Rightarrow> screen" where
  "scroll_to_bottom force current_time s =
     (if force \<or> current_time - last_scroll_time s \<ge> scroll_throttle_delay s then
        (do_scroll s)\<lparr> last_scroll_time := current_time \<rparr>
      else if \<not> scroll_scheduled s then
        (schedule_once DoThrottledScroll (scroll_throttle_delay s) current_time
           (s\<lparr> scroll_scheduled := True \<rparr>))
        \<lparr> pending_scroll_event :=
            Some (current_time + scroll_throttle_delay s, DoThrottledScroll) \<rparr>
      else s)"

definition do_throttled_scroll :: "real \<Rightarrow> screen \<Rightarrow> screen" where
  "do_throttled_scroll now s =
     (do_scroll (s\<lparr> scroll_scheduled := False \<rparr>))\<lparr> last_scroll_time := now \<rparr>"

subsection \<open>History\<close>

text \<open>
  The loop of \<^verbatim>\<open>_cleanup_old_messages\<close>:
  \<^verbatim>\<open>for _ in range(n): if children: remove_widget(children[-1])\<close>.
\<close>

fun cleanup_loop :: "nat \<Rightarrow> nat list \<Rightarrow> nat list" where
  "cleanup_loop 0 ch = ch"
| "cleanup_loop (Suc n) ch =
     cleanup_loop n (if ch \<noteq> [] then remove_widget (last ch) ch else ch)"

definition cleanup_old_messages :: "screen \<Rightarrow> screen" where
  "cleanup_old_messages s =
     (if int (length (messages s)) > max_messages s then
        let messages_to_remove = int (length (messages s)) - max_messages s
        in s\<lparr> messages := cleanup_loop (nat messages_to_remove) (messages s) \<rparr>
      else s)"

text \<open>
  \<^verbatim>\<open>_append_chunk_batch(text)\<close>, called at time \<open>now\<close>. The first step makes sure that
  there is a current bubble and returns its reference with the state.
\<close>

definition ensure_current_bubble :: "screen \<Rightarrow> nat \<times> screen" where
  "ensure_current_bubble s =
     (case current_bubble s of
        None \<Rightarrow>
          (let (b, s1) = new_bubble [] False s
           in (b, add_widget b (s1\<lparr> current_bubble := Some b \<rparr>)))
      | Some b \<Rightarrow> (b, s))"

definition append_chunk_batch :: "string \<Rightarrow> real \<Rightarrow> screen \<Rightarrow> screen" where
  "append_chunk_batch txt now s =
     (let (b, s1) = ensure_current_bubble s;
          current_text = label_text (widgets s1 ! b);
          s2 = update_text b (current_text @ txt) s1
      in scroll_to_bottom False now s2)"

subsection \<open>Chunk batching\<close>

definition on_chunk :: "string \<Rightarrow> real \<Rightarrow> screen \<Rightarrow> screen" where
  "on_chunk chunk now s =
     (let s1 = s\<lparr> pending_chunks := pending_chunks s @ [chunk] \<rparr>
      in if \<not> text_update_scheduled s1 then
           schedule_once ProcessBatchedChunks (text_batch_delay s1) now
             (s1\<lparr> text_update_scheduled := True \<rparr>)
         else s1)"

definition process_batched_chunks :: "real \<Rightarrow> screen \<Rightarrow> screen" where
  "process_batched_chunks now s =
     (if pending_chunks s = [] then s\<lparr> text_update_scheduled := False \<rparr>
      else
        let combined_text = concat (pending_chunks s);
            s1 = s\<lparr> pending_chunks := [] \<rparr>;
            s2 = append_chunk_batch combined_text now
                   (s1\<lparr> delivered := delivered s1 @ [combined_text] \<rparr>)
        in s2\<lparr> text_update_scheduled := False \<rparr>)"

text \<open>\<^verbatim>\<open>_on_message_complete\<close> and the \<^verbatim>\<open>_focus_input\<close> that it schedules (timeout 0).\<close>

definition focus_input :: "screen \<Rightarrow> screen" where
  "focus_input s = s\<lparr> input_focus := True \<rparr>"

definition on_message_complete :: "real \<Rightarrow> screen \<Rightarrow> screen" where
  "on_message_complete now s = schedule_once FocusInput 0 now (s\<lparr> current_bubble := None \<rparr>)"

subsection \<open>Sending\<close>

text \<open>
  \<^verbatim>\<open>str.strip()\<close>: the white space of Python among the code points below 256 is
  9 to 13, 28 to 32, 133 and 160.
\<close>

definition isspace :: "char \<Rightarrow> bool" where
  "isspace c =
     (let n = (of_char c :: nat)
      in (9 \<le> n \<and> n \<le> 13) \<or> (28 \<le> n \<and> n \<le> 32) \<or> n = 133 \<or> n = 160)"

definition strip :: "string \<Rightarrow> string" where
  "strip t = rev (dropWhile isspace (rev (dropWhile isspace t)))"

text \<open>\<^verbatim>\<open>_send_to_backend\<close>: starts the thread that runs \<^verbatim>\<open>client.send_message\<close>.\<close>

definition send_to_backend :: "string \<Rightarrow> screen \<Rightarrow> screen" where
  "send_to_backend message s = s\<lparr> started_sends := started_sends s @ [message] \<rparr>"

definition demo_text :: "string \<Rightarrow> string" where
  "demo_text message =
     ''Demo response to: '' @ [CHR 0x27] @ take 30 message
       @ (if length message > 30 then ''...'' else []) @ [CHR 0x27]"

definition show_demo_response :: "string \<Rightarrow> real \<Rightarrow> screen \<Rightarrow> screen" where
  "show_demo_response message now s =
     (let (ai_bubble, s1) = new_bubble (demo_text message) False s
      in scroll_to_bottom False now (add_widget ai_bubble s1))"

text \<open>
  \<^verbatim>\<open>send_message\<close>: \<open>t1\<close> is the time read by its own \<^verbatim>\<open>_scroll_to_bottom\<close>, \<open>t2\<close> the time
  read by the one of \<^verbatim>\<open>_show_demo_response\<close>.
\<close>

definition send_message :: "real \<Rightarrow> real \<Rightarrow> screen \<Rightarrow> screen" where
  "send_message t1 t2 s =
     (let message_text = strip (text_input s)
      in if message_text = [] then s
         else
           let s1 = s\<lparr> text_input := [] \<rparr>;
               (user_bubble, s2) = new_bubble message_text True s1;
               s3 = add_widget user_bubble s2;
               s4 = scroll_to_bottom False t1 s3;
               s5 = cleanup_old_messages s4
           in if backend_available s5 then send_to_backend message_text s5
              else show_demo_response message_text t2 s5)"

subsection \<open>The clock runs an event\<close>

fun run_task :: "task \<Rightarrow> real \<Rightarrow> screen \<Rightarrow> screen" where
  "run_task DoThrottledScroll now s = do_throttled_scroll now s"
| "run_task ProcessBatchedChunks now s = process_batched_chunks now s"
| "run_task FocusInput now s = focus_input s"

text \<open>The first scheduled event with callback \<open>cb\<close> leaves the queue.\<close>

fun unschedule :: "task \<Rightarrow> clock_event list \<Rightarrow> clock_event list" where
  "unschedule cb [] = []"
| "unschedule cb (e # es) = (if snd e = cb then es else e # unschedule cb es)"

text \<open>
  The clock runs the callback \<open>cb\<close> at time \<open>now\<close> when an event for it is scheduled, and
  does nothing otherwise. The model does not force the order of the due times: what
  holds for every order of firing holds for the order that Kivy chooses.
\<close>

definition clock_fire :: "task \<Rightarrow> real \<Rightarrow> screen \<Rightarrow> screen" where
  "clock_fire cb now s =
     (if cb \<in> snd ` set (clock s) then run_task cb now (s\<lparr> clock := unschedule cb (clock s) \<rparr>)
      else s)"

text \<open>The number of scheduled events with callback \<open>cb\<close>.\<close>

definition count_task :: "task \<Rightarrow> clock_event list \<Rightarrow> nat" where
  "count_task cb q = length (filter (\<lambda>e. snd e = cb) q)"

definition scheduled :: "task \<Rightarrow> screen \<Rightarrow> nat" where
  "scheduled cb s = count_task cb (clock s)"

subsection \<open>Runs\<close>

text \<open>
  What can happen to the screen while a reply streams in, each step atomic: a chunk
  arrives (\<^verbatim>\<open>_on_chunk\<close>), the clock runs a scheduled callback, the user types a text
  and sends it, the backend client reports the end of the reply.
\<close>

datatype event =
    Chunk string real
  | Fire task real
  | Send string real real
  | Complete real

fun step :: "screen \<Rightarrow> event \<Rightarrow> screen" where
  "step s (Chunk c now) = on_chunk c now s"
| "step s (Fire cb now) = clock_fire cb now s"
| "step s (Send txt t1 t2) = send_message t1 t2 (s\<lparr> text_input := txt \<rparr>)"
| "step s (Complete now) = on_message_complete now s"

definition run :: "event list \<Rightarrow> screen \<Rightarrow> screen" where
  "run evs s = foldl step s evs"

text \<open>The chunks that a run offers, in the order of arrival.\<close>

fun offered :: "event list \<Rightarrow> string list" where
  "offered [] = []"
| "offered (Chunk c now # evs) = c # offered evs"
| "offered (e # evs) = offered evs"

text \<open>The batches delivered between an earlier state \<open>s\<close> and a later state \<open>s'\<close>.\<close>

definition batches_since :: "screen \<Rightarrow> screen \<Rightarrow> string list" where
  "batches_since s s' = drop (length (delivered s)) (delivered s')"

text \<open>
  The flag \<^verbatim>\<open>_text_update_scheduled\<close> tells whether a flush is on the clock, and chunks
  wait only while one is.
\<close>

definition flush_inv :: "screen \<Rightarrow> bool" where
  "flush_inv s \<longleftrightarrow>
     scheduled ProcessBatchedChunks s = (if text_update_scheduled s then 1 else 0)
     \<and> (pending_chunks s = [] \<or> text_update_scheduled s)"

text \<open>The flag \<^verbatim>\<open>_scroll_scheduled\<close> tells whether a deferred scroll is on the clock.\<close>

definition scroll_inv :: "screen \<Rightarrow> bool" where
  "scroll_inv s \<longleftrightarrow>
     scheduled DoThrottledScroll s = (if scroll_scheduled s then 1 else 0)"

text \<open>\<^verbatim>\<open>_append_chunk_batch\<close> applied to one delta after the other, each at its time.\<close>

definition update_last_all :: "(string \<times> real) list \<Rightarrow> screen \<Rightarrow> screen" where
  "update_last_all ds s = foldl (\<lambda>s (d, t). append_chunk_batch d t s) s ds"

text \<open>Unforced calls of \<^verbatim>\<open>_scroll_to_bottom\<close> at the times \<open>ts\<close>.\<close>

definition triggers :: "real list \<Rightarrow> screen \<Rightarrow> screen" where
  "triggers ts s = foldl (\<lambda>s t. scroll_to_bottom False t s) s ts"

text \<open>The three chunks of the greeting, offered at the times \<open>t1\<close>, \<open>t2\<close>, \<open>t3\<close>.\<close>

definition offer_hello_world :: "real \<Rightarrow> real \<Rightarrow> real \<Rightarrow> screen \<Rightarrow> screen" where
  "offer_hello_world t1 t2 t3 s =
     on_chunk ''world'' t3 (on_chunk ''lo, '' t2 (on_chunk ''Hel'' t1 s))"

subsection \<open>Example screens\<close>

text \<open>A new screen: throttle 100 ms, batch delay 50 ms, capacity 3.\<close>

definition fresh_screen :: screen where
  "fresh_screen = new_screen 100 50 3 ''Welcome''"

text \<open>Offline, after one exchange: welcome, question, demo answer; a new text typed.\<close>

definition full_screen :: screen where
  "full_screen = (send_message 1000 1000 (fresh_screen\<lparr> text_input := ''hi'' \<rparr>))
                   \<lparr> text_input := ''again'' \<rparr>"

text \<open>A new screen that has just scrolled, at time 1000.\<close>

definition throttle_probe :: screen where
  "throttle_probe = scroll_to_bottom False 1000 fresh_screen"

text \<open>
  Capacity 2 and a backend. A reply starts to stream into bubble 1; the user sends
  the text \<^verbatim>\<open>one\<close> (\<open>asked_once\<close>) and then the text \<^verbatim>\<open>two\<close>.
  \<open>crowded_screen\<close> is the state inside that second \<^verbatim>\<open>send_message\<close> when it calls
  \<^verbatim>\<open>_cleanup_old_messages\<close>.
\<close>

definition streaming_screen :: screen where
  "streaming_screen =
     append_chunk_batch ''Hel'' 1000
       ((new_screen 100 50 2 ''Welcome'')\<lparr> backend_available := True \<rparr>)"

definition asked_once :: screen where
  "asked_once = send_message 1001 1001 (streaming_screen\<lparr> text_input := ''one'' \<rparr>)"

definition crowded_screen :: screen where
  "crowded_screen =
     scroll_to_bottom False 1002
       (add_widget 3 (snd (new_bubble ''two'' True (asked_once\<lparr> text_input := [] \<rparr>))))"

section \<open>Auxiliary facts\<close>

subsection \<open>The clock queue\<close>

lemma count_task_unschedule:
  "count_task cb' (unschedule cb q) =
     (if cb' = cb then count_task cb' q - 1 else count_task cb' q)"
  by (induction q) (auto simp: count_task_def)

lemma count_task_snoc:
  "count_task cb (q @ [(d, cb')]) = (if cb' = cb then Suc (count_task cb q) else count_task cb q)"
  by (simp add: count_task_def)

lemma count_task_pos: "cb \<in> snd ` set q \<longleftrightarrow> 0 < count_task cb q"
  by (induction q) (auto simp: count_task_def)

subsection \<open>What scrolling leaves alone\<close>

lemma scroll_to_bottom_frame:
  "widgets (scroll_to_bottom f t s) = widgets s"
  "messages (scroll_to_bottom f t s) = messages s"
  "current_bubble (scroll_to_bottom f t s) = current_bubble s"
  "backend_available (scroll_to_bottom f t s) = backend_available s"
  "max_messages (scroll_to_bottom f t s) = max_messages s"
  "pending_chunks (scroll_to_bottom f t s) = pending_chunks s"
  "text_update_scheduled (scroll_to_bottom f t s) = text_update_scheduled s"
  "delivered (scroll_to_bottom f t s) = delivered s"
  "started_sends (scroll_to_bottom f t s) = started_sends s"
  "count_task ProcessBatchedChunks (clock (scroll_to_bottom f t s))
     = count_task ProcessBatchedChunks (clock s)"
  by (simp_all add: scroll_to_bottom_def do_scroll_def schedule_once_def count_task_def)

lemma do_throttled_scroll_frame:
  "pending_chunks (do_throttled_scroll t s) = pending_chunks s"
  "text_update_scheduled (do_throttled_scroll t s) = text_update_scheduled s"
  "delivered (do_throttled_scroll t s) = delivered s"
  "clock (do_throttled_scroll t s) = clock s"
  by (simp_all add: do_throttled_scroll_def do_scroll_def)

subsection \<open>The history\<close>

lemma cleanup_loop_take: "distinct ch \<Longrightarrow> cleanup_loop n ch = take (length ch - n) ch"
proof (induction n arbitrary: ch)
  case 0
  then show ?case by simp
next
  case (Suc n)
  show ?case
  proof (cases "ch = []")
    case True
    then show ?thesis using Suc.IH [of "[]"] by simp
  next
    case False
    then obtain xs x where ch: "ch = xs @ [x]"
      by (metis append_butlast_last_id)
    with Suc.prems have "remove1 x (xs @ [x]) = xs"
      by (simp add: remove1_append)
    moreover have "distinct xs" using Suc.prems ch by simp
    ultimately show ?thesis using Suc.IH [of xs] ch by (simp add: remove_widget_def)
  qed
qed

lemma cleanup_old_messages_take:
  assumes "distinct (messages s)"
  shows "cleanup_old_messages s = s\<lparr> messages := take (nat (max_messages s)) (messages s) \<rparr>"
proof (cases "int (length (messages s)) > max_messages s")
  case True
  have "length (messages s) - nat (int (length (messages s)) - max_messages s)
          = nat (max_messages s)"
    using True by linarith
  then show ?thesis
    using True assms by (simp add: cleanup_old_messages_def cleanup_loop_take)
next
  case False
  then show ?thesis by (simp add: cleanup_old_messages_def)
qed

lemma cleanup_old_messages_frame:
  "widgets (cleanup_old_messages s) = widgets s"
  "backend_available (cleanup_old_messages s) = backend_available s"
  "pending_chunks (cleanup_old_messages s) = pending_chunks s"
  "text_update_scheduled (cleanup_old_messages s) = text_update_scheduled s"
  "delivered (cleanup_old_messages s) = delivered s"
  "started_sends (cleanup_old_messages s) = started_sends s"
  "clock (cleanup_old_messages s) = clock s"
  by (simp_all add: cleanup_old_messages_def Let_def)

subsection \<open>Appending a batch to the current bubble\<close>

lemma append_chunk_batch_frame:
  "pending_chunks (append_chunk_batch x t s) = pending_chunks s"
  "text_update_scheduled (append_chunk_batch x t s) = text_update_scheduled s"
  "delivered (append_chunk_batch x t s) = delivered s"
  "count_task ProcessBatchedChunks (clock (append_chunk_batch x t s))
     = count_task ProcessBatchedChunks (clock s)"
  by (simp_all add: append_chunk_batch_def ensure_current_bubble_def new_bubble_def
        add_widget_def update_text_def scroll_to_bottom_frame Let_def
        split: option.splits prod.splits)

lemma append_chunk_batch_current:
  assumes "current_bubble s = Some b" and "b < length (widgets s)"
  shows "current_bubble (append_chunk_batch d t s) = Some b"
    and "length (widgets (append_chunk_batch d t s)) = length (widgets s)"
    and "messages (append_chunk_batch d t s) = messages s"
    and "label_text (widgets (append_chunk_batch d t s) ! b) = label_text (widgets s ! b) @ d"
  using assms
  by (simp_all add: append_chunk_batch_def ensure_current_bubble_def update_text_def
        scroll_to_bottom_frame)

lemma append_chunk_batch_first:
  assumes "current_bubble s = None"
  shows "current_bubble (append_chunk_batch d t s) = Some (length (widgets s))"
    and "length (widgets (append_chunk_batch d t s)) = Suc (length (widgets s))"
    and "messages (append_chunk_batch d t s) = length (widgets s) # messages s"
    and "label_text (widgets (append_chunk_batch d t s) ! length (widgets s)) = d"
  using assms
  by (simp_all add: append_chunk_batch_def ensure_current_bubble_def update_text_def
        new_bubble_def add_widget_def scroll_to_bottom_frame)

lemma update_last_all_current:
  assumes "current_bubble s = Some b" and "b < length (widgets s)"
  shows "current_bubble (update_last_all ds s) = Some b
       \<and> length (widgets (update_last_all ds s)) = length (widgets s)
       \<and> messages (update_last_all ds s) = messages s
       \<and> label_text (widgets (update_last_all ds s) ! b)
           = label_text (widgets s ! b) @ concat (map fst ds)"
  using assms
proof (induction ds arbitrary: s)
  case Nil
  then show ?case by (simp add: update_last_all_def)
next
  case (Cons p ds)
  obtain d t where p: "p = (d, t)" by (cases p)
  have u: "update_last_all (p # ds) s = update_last_all ds (append_chunk_batch d t s)"
    by (simp add: update_last_all_def p)
  note a = append_chunk_batch_current [OF Cons.prems, of d t]
  have "b < length (widgets (append_chunk_batch d t s))"
    using a(2) Cons.prems(2) by simp
  from Cons.IH [OF a(1) this] show ?case
    using a u p by simp
qed

subsection \<open>Sending\<close>

lemma strip_all_space:
  assumes "\<forall>c\<in>set t. isspace c"
  shows "strip t = []"
proof -
  from assms have "dropWhile isspace t = []" by simp
  then show ?thesis unfolding strip_def by (simp only: rev.simps dropWhile.simps)
qed

lemma show_demo_response_frame:
  "pending_chunks (show_demo_response m t s) = pending_chunks s"
  "text_update_scheduled (show_demo_response m t s) = text_update_scheduled s"
  "delivered (show_demo_response m t s) = delivered s"
  "count_task ProcessBatchedChunks (clock (show_demo_response m t s))
     = count_task ProcessBatchedChunks (clock s)"
  by (simp_all add: show_demo_response_def new_bubble_def add_widget_def scroll_to_bottom_frame)

lemma send_message_frame:
  "pending_chunks (send_message t1 t2 s) = pending_chunks s"
  "text_update_scheduled (send_message t1 t2 s) = text_update_scheduled s"
  "delivered (send_message t1 t2 s) = delivered s"
  "count_task ProcessBatchedChunks (clock (send_message t1 t2 s))
     = count_task ProcessBatchedChunks (clock s)"
  by (simp_all add: send_message_def send_to_backend_def show_demo_response_frame
        cleanup_old_messages_frame scroll_to_bottom_frame new_bubble_def add_widget_def Let_def)

subsection \<open>The flush invariant\<close>

lemma on_chunk_inv:
  assumes "flush_inv s"
  shows "flush_inv (on_chunk c t s)"
    and "delivered (on_chunk c t s) = delivered s"
    and "pending_chunks (on_chunk c t s) = pending_chunks s @ [c]"
  using assms
  by (simp_all add: on_chunk_def flush_inv_def scheduled_def schedule_once_def
        count_task_snoc Let_def)

lemma process_batched_chunks_effect:
  "pending_chunks (process_batched_chunks t s) = []"
  "\<not> text_update_scheduled (process_batched_chunks t s)"
  "delivered (process_batched_chunks t s) =
     delivered s @ (if pending_chunks s = [] then [] else [concat (pending_chunks s)])"
  "count_task ProcessBatchedChunks (clock (process_batched_chunks t s))
     = count_task ProcessBatchedChunks (clock s)"
  by (simp_all add: process_batched_chunks_def append_chunk_batch_frame Let_def)

lemma clock_fire_flush:
  assumes "flush_inv s"
  shows "flush_inv (clock_fire ProcessBatchedChunks t s)"
    and "delivered (clock_fire ProcessBatchedChunks t s) =
           delivered s @ (if pending_chunks s = [] then [] else [concat (pending_chunks s)])"
    and "pending_chunks (clock_fire ProcessBatchedChunks t s) = []"
    and "scheduled ProcessBatchedChunks (clock_fire ProcessBatchedChunks t s) = 0"
  using assms
  by (auto simp add: clock_fire_def flush_inv_def process_batched_chunks_effect scheduled_def
        count_task_unschedule count_task_pos split: if_splits)

lemma clock_fire_other:
  assumes "flush_inv s" and "cb \<noteq> ProcessBatchedChunks"
  shows "flush_inv (clock_fire cb t s)"
    and "delivered (clock_fire cb t s) = delivered s"
    and "pending_chunks (clock_fire cb t s) = pending_chunks s"
  using assms
  by (cases cb; auto simp add: clock_fire_def flush_inv_def do_throttled_scroll_frame
        focus_input_def scheduled_def count_task_unschedule)+

lemma send_message_inv:
  assumes "flush_inv s"
  shows "flush_inv (send_message t1 t2 (s\<lparr> text_input := txt \<rparr>))"
  using assms by (simp add: flush_inv_def scheduled_def send_message_frame)

lemma on_message_complete_inv:
  assumes "flush_inv s"
  shows "flush_inv (on_message_complete t s)"
  using assms
  by (simp add: flush_inv_def scheduled_def on_message_complete_def schedule_once_def
        count_task_snoc)

lemma step_inv:
  assumes "flush_inv s"
  shows "flush_inv (step s e)
      \<and> concat (delivered (step s e)) @ concat (pending_chunks (step s e)) =
           concat (delivered s) @ concat (pending_chunks s) @ concat (offered [e])
      \<and> (\<exists>bs. delivered (step s e) = delivered s @ bs)"
proof (cases e)
  case (Chunk c t)
  then show ?thesis
    using on_chunk_inv [OF assms, of c t] by simp
next
  case (Fire cb t)
  show ?thesis
  proof (cases "cb = ProcessBatchedChunks")
    case True
    then show ?thesis using Fire clock_fire_flush [OF assms, of t] by simp
  next
    case False
    then show ?thesis using Fire clock_fire_other [OF assms False, of t] by simp
  qed
next
  case (Send msg t1 t2)
  then show ?thesis
    using send_message_inv [OF assms, of t1 t2 msg] by (simp add: send_message_frame)
next
  case (Complete t)
  then show ?thesis
    using on_message_complete_inv [OF assms, of t]
    by (simp add: on_message_complete_def schedule_once_def)
qed

lemma offered_append: "offered (xs @ ys) = offered xs @ offered ys"
  by (induction xs rule: offered.induct) simp_all

lemma run_inv:
  assumes "flush_inv s"
  shows "flush_inv (run evs s)
    \<and> concat (delivered (run evs s)) @ concat (pending_chunks (run evs s)) =
           concat (delivered s) @ concat (pending_chunks s) @ concat (offered evs)
    \<and> (\<exists>bs. delivered (run evs s) = delivered s @ bs)"
proof (induction evs rule: rev_induct)
  case Nil
  show ?case using assms by (simp add: run_def)
next
  case (snoc e evs)
  let ?m = "run evs s"
  have r: "run (evs @ [e]) s = step ?m e" by (simp add: run_def)
  from snoc have inv: "flush_inv ?m" by simp
  from snoc obtain bs where bs: "delivered ?m = delivered s @ bs" by blast
  note st = step_inv [OF inv, of e]
  from st obtain cs where cs: "delivered (step ?m e) = delivered ?m @ cs" by blast
  have "concat (delivered (step ?m e)) @ concat (pending_chunks (step ?m e)) =
          concat (delivered s) @ concat (pending_chunks s) @ concat (offered (evs @ [e]))"
    using st snoc by (simp add: offered_append)
  moreover have "delivered (step ?m e) = delivered s @ (bs @ cs)" using bs cs by simp
  ultimately show ?case using st r by auto
qed

subsection \<open>The scroll throttle\<close>

lemma triggers_throttled:
  assumes "\<forall>t\<in>set ts. t - last_scroll_time s < scroll_throttle_delay s"
    and "scroll_scheduled s"
  shows "triggers ts s = s"
  using assms
  by (induction ts) (simp_all add: triggers_def scroll_to_bottom_def)

lemma scroll_to_bottom_scroll_inv:
  "scroll_inv s \<Longrightarrow> scroll_inv (scroll_to_bottom f t s)"
  by (simp add: scroll_inv_def scheduled_def scroll_to_bottom_def do_scroll_def
        schedule_once_def count_task_snoc)

lemma process_batched_chunks_scroll_inv:
  "scroll_inv s \<Longrightarrow> scroll_inv (process_batched_chunks t s)"
proof -
  have a: "scroll_inv (append_chunk_batch x t s)" if "scroll_inv s" for x s
  proof -
    obtain b s1 where e: "ensure_current_bubble s = (b, s1)" by force
    then have "scroll_inv s1" using that
      by (auto simp: ensure_current_bubble_def new_bubble_def add_widget_def scroll_inv_def
            scheduled_def split: option.splits)
    then have "scroll_inv (update_text b (label_text (widgets s1 ! b) @ x) s1)"
      by (simp add: update_text_def scroll_inv_def scheduled_def)
    then show ?thesis
      by (simp add: append_chunk_batch_def e Let_def scroll_to_bottom_scroll_inv)
  qed
  assume i: "scroll_inv s"
  show ?thesis
  proof (cases "pending_chunks s = []")
    case True
    then show ?thesis using i
      by (simp add: process_batched_chunks_def scroll_inv_def scheduled_def)
  next
    case False
    let ?s1 = "s\<lparr> pending_chunks := [],
                   delivered := delivered s @ [concat (pending_chunks s)] \<rparr>"
    have "scroll_inv ?s1" using i by (simp add: scroll_inv_def scheduled_def)
    from a [OF this, of "concat (pending_chunks s)"] show ?thesis using False
      by (simp add: process_batched_chunks_def Let_def scroll_inv_def scheduled_def)
  qed
qed

lemma clock_fire_scroll_inv:
  assumes "scroll_inv s"
  shows "scroll_inv (clock_fire cb t s)"
proof (cases "cb \<in> snd ` set (clock s)")
  case False
  then show ?thesis using assms by (simp add: clock_fire_def)
next
  case True
  let ?s1 = "s\<lparr> clock := unschedule cb (clock s) \<rparr>"
  show ?thesis
  proof (cases cb)
    case DoThrottledScroll
    then show ?thesis using assms True
      by (auto simp: clock_fire_def scroll_inv_def scheduled_def do_throttled_scroll_def
            do_scroll_def count_task_unschedule count_task_pos split: if_splits)
  next
    case ProcessBatchedChunks
    have "scroll_inv ?s1" using assms ProcessBatchedChunks
      by (simp add: scroll_inv_def scheduled_def count_task_unschedule)
    from process_batched_chunks_scroll_inv [OF this] show ?thesis
      using True ProcessBatchedChunks by (simp add: clock_fire_def)
  next
    case FocusInput
    then show ?thesis using assms True
      by (simp add: clock_fire_def scroll_inv_def scheduled_def focus_input_def
            count_task_unschedule)
  qed
qed

lemma send_message_scroll_inv:
  assumes "scroll_inv s"
  shows "scroll_inv (send_message t1 t2 s)"
proof (cases "strip (text_input s) = []")
  case True
  then show ?thesis using assms by (simp add: send_message_def)
next
  case False
  define m where "m = strip (text_input s)"
  define s3 where "s3 = add_widget (length (widgets s)) (snd (new_bubble m True (s\<lparr> text_input := [] \<rparr>)))"
  define s5 where "s5 = cleanup_old_messages (scroll_to_bottom False t1 s3)"
  have "scroll_inv s3" using assms
    by (simp add: s3_def add_widget_def new_bubble_def scroll_inv_def scheduled_def)
  then have "scroll_inv (scroll_to_bottom False t1 s3)" by (rule scroll_to_bottom_scroll_inv)
  then have i5: "scroll_inv s5"
    by (simp add: s5_def scroll_inv_def scheduled_def cleanup_old_messages_def Let_def)
  have sm: "send_message t1 t2 s =
      (if backend_available s5 then send_to_backend m s5 else show_demo_response m t2 s5)"
    using False
    by (simp add: send_message_def m_def [symmetric] new_bubble_def s5_def s3_def Let_def)
  have "scroll_inv (send_to_backend m s5)" using i5
    by (simp add: send_to_backend_def scroll_inv_def scheduled_def)
  moreover have "scroll_inv (show_demo_response m t2 s5)"
  proof -
    have "scroll_inv (add_widget (length (widgets s5)) (snd (new_bubble (demo_text m) False s5)))"
      using i5 by (simp add: add_widget_def new_bubble_def scroll_inv_def scheduled_def)
    then show ?thesis
      by (simp add: show_demo_response_def new_bubble_def scroll_to_bottom_scroll_inv)
  qed
  ultimately show ?thesis by (simp add: sm)
qed

lemma step_scroll_inv:
  assumes "scroll_inv s"
  shows "scroll_inv (step s e)"
proof (cases e)
  case (Chunk c t)
  then show ?thesis using assms
    by (simp add: on_chunk_def schedule_once_def scroll_inv_def scheduled_def count_task_snoc
          Let_def)
next
  case (Fire cb t)
  then show ?thesis using clock_fire_scroll_inv [OF assms] by simp
next
  case (Send msg t1 t2)
  have "scroll_inv (s\<lparr> text_input := msg \<rparr>)"
    using assms by (simp add: scroll_inv_def scheduled_def)
  from send_message_scroll_inv [OF this] show ?thesis using Send by simp
next
  case (Complete t)
  then show ?thesis using assms
    by (simp add: on_message_complete_def schedule_once_def scroll_inv_def scheduled_def
          count_task_snoc)
qed

lemma run_scroll_inv:
  assumes "scroll_inv s"
  shows "scroll_inv (run evs s)"
  using assms unfolding run_def
  by (induction evs arbitrary: s) (simp_all add: step_scroll_inv)

lemma new_screen_invs:
  "flush_inv (new_screen a b c d)" "scroll_inv (new_screen a b c d)"
  by (simp_all add: flush_inv_def scroll_inv_def scheduled_def count_task_def new_screen_def)

lemmas screen_defs =
  new_screen_def fresh_screen_def full_screen_def throttle_probe_def streaming_screen_def
  asked_once_def crowded_screen_def
  new_bubble_def add_widget_def remove_widget_def update_text_def schedule_once_def
  do_scroll_def scroll_to_bottom_def do_throttled_scroll_def
  cleanup_old_messages_def ensure_current_bubble_def append_chunk_batch_def
  on_chunk_def process_batched_chunks_def focus_input_def on_message_complete_def
  isspace_def strip_def send_to_backend_def demo_text_def show_demo_response_def
  send_message_def clock_fire_def count_task_def scheduled_def
  run_def batches_since_def update_last_all_def triggers_def offer_hello_world_def
  Let_def

section \<open>Properties\<close>

subsection \<open>Chunk batching\<close>

text \<open>
  C1. Start with nothing pending and no flush on the clock. Whatever chunks are offered,
  and however the flushes, the other clock callbacks, the sends of the user and the end
  of the reply fall between them: once the flush that is still scheduled has fired, the
  batches delivered since the start, concatenated, are the offered chunks, concatenated
  in the order of arrival. Nothing is left pending and no flush is left on the clock.
  The earlier batches are untouched.
\<close>

theorem coalescer_preserves_text:
  assumes "pending_chunks s = []" and "\<not> text_update_scheduled s"
    and "scheduled ProcessBatchedChunks s = 0"
  shows "take (length (delivered s)) (delivered (clock_fire ProcessBatchedChunks t (run evs s)))
           = delivered s
       \<and> concat (batches_since s (clock_fire ProcessBatchedChunks t (run evs s)))
           = concat (offered evs)
       \<and> pending_chunks (clock_fire ProcessBatchedChunks t (run evs s)) = []
       \<and> scheduled ProcessBatchedChunks (clock_fire ProcessBatchedChunks t (run evs s)) = 0"
proof -
  let ?m = "run evs s" and ?f = "clock_fire ProcessBatchedChunks t (run evs s)"
  have inv0: "flush_inv s" using assms by (simp add: flush_inv_def)
  from run_inv [OF inv0, of evs] obtain bs where
    inv: "flush_inv ?m" and
    eq: "concat (delivered ?m) @ concat (pending_chunks ?m)
           = concat (delivered s) @ concat (offered evs)" and
    bs: "delivered ?m = delivered s @ bs"
    using assms by auto
  define cs where "cs = (if pending_chunks ?m = [] then [] else [concat (pending_chunks ?m)])"
  have d: "delivered ?f = delivered s @ (bs @ cs)"
    using clock_fire_flush(2) [OF inv, of t] bs by (simp add: cs_def)
  have "concat (delivered ?f) = concat (delivered ?m) @ concat (pending_chunks ?m)"
    using clock_fire_flush(2) [OF inv, of t] by simp
  then have "concat (delivered s) @ concat (bs @ cs) = concat (delivered s) @ concat (offered evs)"
    using eq d by simp
  then have "concat (bs @ cs) = concat (offered evs)" by simp
  then show ?thesis
    using d clock_fire_flush(3,4) [OF inv, of t] by (simp add: batches_since_def)
qed

text \<open>
  On a new screen: two chunks, a send of the user, a flush, a third chunk, the end of the
  reply, and the last flush. The two batches make up \<open>Hello!\<close>.
\<close>

theorem coalescer_preserves_text_witness:
  "pending_chunks fresh_screen = [] \<and> \<not> text_update_scheduled fresh_screen
   \<and> scheduled ProcessBatchedChunks fresh_screen = 0
   \<and> concat (batches_since fresh_screen
        (clock_fire ProcessBatchedChunks 1003
          (run [Chunk ''Hel'' 1000, Chunk ''lo'' 1000, Send ''hi'' 1000 1000,
                Fire ProcessBatchedChunks 1001, Chunk ''!'' 1002, Complete 1002]
             fresh_screen))) = ''Hello!''
   \<and> pending_chunks
        (clock_fire ProcessBatchedChunks 1003
          (run [Chunk ''Hel'' 1000, Chunk ''lo'' 1000, Send ''hi'' 1000 1000,
                Fire ProcessBatchedChunks 1001, Chunk ''!'' 1002, Complete 1002]
             fresh_screen)) = []"
proof -
  have p: "pending_chunks fresh_screen = []" "\<not> text_update_scheduled fresh_screen"
    "scheduled ProcessBatchedChunks fresh_screen = 0"
    by (simp_all add: fresh_screen_def new_screen_def scheduled_def count_task_def)
  from coalescer_preserves_text [OF p, of 1003
      "[Chunk ''Hel'' 1000, Chunk ''lo'' 1000, Send ''hi'' 1000 1000,
        Fire ProcessBatchedChunks 1001, Chunk ''!'' 1002, Complete 1002]"]
  show ?thesis using p by simp
qed

text \<open>
  C7. Nothing pending and no flush on the clock. The chunks \<open>Hel\<close>, \<open>lo, \<close> and \<open>world\<close>
  are offered before the flush fires: they put one flush on the clock and deliver
  nothing; when it fires, one batch is delivered, \<open>Hello, world\<close>; after that nothing is
  pending, no flush is on the clock, and firing again delivers nothing.
\<close>

theorem hello_world_one_batch:
  assumes "pending_chunks s = []" and "\<not> text_update_scheduled s"
    and "scheduled ProcessBatchedChunks s = 0"
  shows "scheduled ProcessBatchedChunks (offer_hello_world t1 t2 t3 s) = 1
       \<and> delivered (offer_hello_world t1 t2 t3 s) = delivered s
       \<and> delivered (clock_fire ProcessBatchedChunks t4 (offer_hello_world t1 t2 t3 s))
           = delivered s @ [''Hello, world'']
       \<and> pending_chunks (clock_fire ProcessBatchedChunks t4 (offer_hello_world t1 t2 t3 s)) = []
       \<and> scheduled ProcessBatchedChunks
            (clock_fire ProcessBatchedChunks t4 (offer_hello_world t1 t2 t3 s)) = 0
       \<and> clock_fire ProcessBatchedChunks t5
            (clock_fire ProcessBatchedChunks t4 (offer_hello_world t1 t2 t3 s))
           = clock_fire ProcessBatchedChunks t4 (offer_hello_world t1 t2 t3 s)"
proof -
  let ?o = "offer_hello_world t1 t2 t3 s"
  let ?f = "clock_fire ProcessBatchedChunks t4 ?o"
  have inv0: "flush_inv s" using assms by (simp add: flush_inv_def)
  have o: "pending_chunks ?o = [''Hel'', ''lo, '', ''world'']" "delivered ?o = delivered s"
    "scheduled ProcessBatchedChunks ?o = 1" "text_update_scheduled ?o"
    using assms
    by (simp_all add: offer_hello_world_def on_chunk_def schedule_once_def scheduled_def
          count_task_snoc Let_def)
  have inv: "flush_inv ?o" using o by (simp add: flush_inv_def)
  note f = clock_fire_flush [OF inv, of t4]
  have "ProcessBatchedChunks \<notin> snd ` set (clock ?f)"
    using f(4) by (simp add: count_task_pos scheduled_def)
  then have "clock_fire ProcessBatchedChunks t5 ?f = ?f" by (simp add: clock_fire_def)
  then show ?thesis using o f by simp
qed

theorem hello_world_one_batch_witness:
  "pending_chunks fresh_screen = [] \<and> \<not> text_update_scheduled fresh_screen
   \<and> scheduled ProcessBatchedChunks fresh_screen = 0
   \<and> delivered (offer_hello_world 1000 (100001 / 100) (100002 / 100) fresh_screen) = []
   \<and> delivered (clock_fire ProcessBatchedChunks (100005 / 100)
        (offer_hello_world 1000 (100001 / 100) (100002 / 100) fresh_screen))
       = [''Hello, world'']"
proof -
  have p: "pending_chunks fresh_screen = []" "\<not> text_update_scheduled fresh_screen"
    "scheduled ProcessBatchedChunks fresh_screen = 0"
    by (simp_all add: fresh_screen_def new_screen_def scheduled_def count_task_def)
  have d: "delivered fresh_screen = []" by (simp add: fresh_screen_def new_screen_def)
  from hello_world_one_batch [OF p, of 1000 "100001 / 100" "100002 / 100" "100005 / 100"]
  show ?thesis using p d by simp
qed

text \<open>
  C8. When the buffer of pending chunks is empty, the flush delivers nothing and changes
  nothing but the flush-scheduled flag, which it clears: history, bubbles, clock and
  every other field stay as they were.
\<close>

theorem flush_empty_noop:
  "pending_chunks s = [] \<Longrightarrow>
     process_batched_chunks now s = s\<lparr> text_update_scheduled := False \<rparr>"
  by (simp add: process_batched_chunks_def)

theorem flush_empty_noop_witness:
  "pending_chunks full_screen = []
   \<and> process_batched_chunks 1001 full_screen = full_screen\<lparr> text_update_scheduled := False \<rparr>
   \<and> delivered (process_batched_chunks 1001 full_screen) = delivered full_screen
   \<and> messages (process_batched_chunks 1001 full_screen) = messages full_screen
   \<and> widgets (process_batched_chunks 1001 full_screen) = widgets full_screen"
proof -
  have p: "pending_chunks full_screen = []" by (simp add: screen_defs)
  from flush_empty_noop [OF p, of 1001] show ?thesis using p by simp
qed


subsection \<open>The history\<close>

text \<open>
  C3. No streaming message is in progress. \<^verbatim>\<open>_append_chunk_batch\<close> is applied to the
  deltas one after the other (at least one). Then one bubble has been added to the
  history, it is the newest entry and the current bubble, and its text is the
  concatenation of the deltas in order.
\<close>

theorem update_last_reconstructs:
  assumes "current_bubble s = None" and "ds \<noteq> []"
  shows "messages (update_last_all ds s) = length (widgets s) # messages s
       \<and> current_bubble (update_last_all ds s) = Some (hd (messages (update_last_all ds s)))
       \<and> label_text (widgets (update_last_all ds s) ! hd (messages (update_last_all ds s)))
           = concat (map fst ds)"
proof -
  from assms(2) obtain p ds' where ds: "ds = p # ds'" by (cases ds) auto
  obtain d t where p: "p = (d, t)" by (cases p)
  let ?b = "length (widgets s)"
  have u: "update_last_all ds s = update_last_all ds' (append_chunk_batch d t s)"
    by (simp add: update_last_all_def p ds)
  note f = append_chunk_batch_first [OF assms(1), of d t]
  have "?b < length (widgets (append_chunk_batch d t s))" using f(2) by simp
  from update_last_all_current [OF f(1) this, of ds'] show ?thesis
    using f u ds p by simp
qed

theorem update_last_reconstructs_witness:
  "current_bubble fresh_screen = None
   \<and> messages (update_last_all [(''Hel'', 1000), (''lo, '', 1001), (''world'', 1002)] fresh_screen)
       = [1, 0]
   \<and> label_text
        (widgets (update_last_all [(''Hel'', 1000), (''lo, '', 1001), (''world'', 1002)] fresh_screen)
          ! hd (messages
                 (update_last_all [(''Hel'', 1000), (''lo, '', 1001), (''world'', 1002)] fresh_screen)))
       = ''Hello, world''"
proof -
  have p: "current_bubble fresh_screen = None"
    and w: "length (widgets fresh_screen) = 1" "messages fresh_screen = [0]"
    by (simp_all add: fresh_screen_def new_screen_def)
  have q: "[(''Hel'', 1000::real), (''lo, '', 1001), (''world'', 1002)] \<noteq> []" by simp
  have cc: "concat (map fst [(''Hel'', 1000::real), (''lo, '', 1001), (''world'', 1002)])
      = ''Hello, world''"
    by simp
  note r = update_last_reconstructs [OF p q]
  from r have a: "messages (update_last_all [(''Hel'', 1000), (''lo, '', 1001), (''world'', 1002)]
      fresh_screen) = [1, 0]"
    using w by simp
  from r have b: "label_text
        (widgets (update_last_all [(''Hel'', 1000), (''lo, '', 1001), (''world'', 1002)] fresh_screen)
          ! hd (messages
                 (update_last_all [(''Hel'', 1000), (''lo, '', 1001), (''world'', 1002)] fresh_screen)))
       = ''Hello, world''"
    unfolding cc by blast
  from p a b show ?thesis by blast
qed

text \<open>
  C2. The history is over its capacity after an append. Capacity 3, no backend; the
  history holds three bubbles (welcome, question, demo answer). The user sends another
  text: the history then holds four bubbles.
\<close>

theorem history_exceeds_capacity:
  "max_messages full_screen = 3
   \<and> messages full_screen = [2, 1, 0]
   \<and> messages (send_message 1001 1001 full_screen) = [4, 3, 2, 1]
   \<and> max_messages (send_message 1001 1001 full_screen) = 3
   \<and> int (length (messages (send_message 1001 1001 full_screen)))
        > max_messages (send_message 1001 1001 full_screen)"
  by (simp add: screen_defs)

lemma asked_once_facts:
  "length (widgets asked_once) = 3" "backend_available asked_once"
  by (simp_all add: screen_defs)

lemma crowded_screen_send:
  "send_message 1002 1002 (asked_once\<lparr> text_input := ''two'' \<rparr>)
     = send_to_backend ''two'' (cleanup_old_messages crowded_screen)"
proof -
  have st: "strip ''two'' = ''two''" by (simp add: strip_def isspace_def)
  have b: "backend_available (cleanup_old_messages crowded_screen)"
    by (simp add: crowded_screen_def cleanup_old_messages_frame scroll_to_bottom_frame
          add_widget_def new_bubble_def asked_once_facts)
  show ?thesis
    using b by (simp add: send_message_def st crowded_screen_def new_bubble_def
          asked_once_facts Let_def)
qed

text \<open>
  C6, as the claim states it, fails. Capacity 2; a reply streams into bubble 1; the user
  has sent one text and sends a second one. The cleanup of the second send removes
  bubble 1 from the history, while \<^verbatim>\<open>current_bubble\<close> still refers to it.
\<close>

theorem eviction_removes_streaming_bubble:
  "current_bubble crowded_screen = Some 1
   \<and> max_messages crowded_screen = 2
   \<and> messages crowded_screen = [3, 2, 1]
   \<and> messages (cleanup_old_messages crowded_screen) = [3, 2]
   \<and> current_bubble (cleanup_old_messages crowded_screen) = Some 1
   \<and> 1 \<notin> set (messages (cleanup_old_messages crowded_screen))
   \<and> send_message 1002 1002 (asked_once\<lparr> text_input := ''two'' \<rparr>)
       = send_to_backend ''two'' (cleanup_old_messages crowded_screen)"
proof -
  have "current_bubble crowded_screen = Some 1
   \<and> max_messages crowded_screen = 2
   \<and> messages crowded_screen = [3, 2, 1]
   \<and> messages (cleanup_old_messages crowded_screen) = [3, 2]
   \<and> current_bubble (cleanup_old_messages crowded_screen) = Some 1
   \<and> 1 \<notin> set (messages (cleanup_old_messages crowded_screen))"
    by (simp add: screen_defs)
  with crowded_screen_send show ?thesis by blast
qed

text \<open>
  C6, amended. The entries of the history are pairwise distinct (Kivy refuses to add a
  widget twice). The cleanup changes the history only: it keeps the newest
  \<open>max_messages\<close> entries (none when that number is negative) in their order, and what it
  removes is the rest, the oldest end. It does not look at \<^verbatim>\<open>current_bubble\<close>, which it
  leaves as it is: the bubble being streamed into stays in the history exactly when it
  is among those newest entries.
\<close>

theorem eviction_keeps_newest:
  assumes "distinct (messages s)"
  shows "cleanup_old_messages s = s\<lparr> messages := take (nat (max_messages s)) (messages s) \<rparr>
       \<and> messages s
           = messages (cleanup_old_messages s) @ drop (nat (max_messages s)) (messages s)
       \<and> current_bubble (cleanup_old_messages s) = current_bubble s
       \<and> (b \<in> set (messages (cleanup_old_messages s))
            \<longleftrightarrow> b \<in> set (take (nat (max_messages s)) (messages s)))"
  by (simp add: cleanup_old_messages_take [OF assms])

theorem eviction_keeps_newest_witness:
  "distinct (messages crowded_screen)
   \<and> messages (cleanup_old_messages crowded_screen) = [3, 2]
   \<and> messages crowded_screen = messages (cleanup_old_messages crowded_screen) @ [1]
   \<and> current_bubble (cleanup_old_messages crowded_screen) = Some 1"
proof -
  have m: "messages crowded_screen = [3, 2, 1]" "max_messages crowded_screen = 2"
    "current_bubble crowded_screen = Some 1"
    by (simp_all add: screen_defs)
  have d: "distinct (messages crowded_screen)" unfolding m by simp
  have n: "nat 2 = Suc (Suc 0)" by simp
  have tk: "take (nat 2) [3, 2, 1::nat] = [3, 2]" "drop (nat 2) [3, 2, 1::nat] = [1]"
    by (simp_all add: n)
  note r = eviction_keeps_newest [OF d, of 1]
  from r have e: "cleanup_old_messages crowded_screen = crowded_screen\<lparr> messages := [3, 2] \<rparr>"
    unfolding m tk by blast
  have a: "messages (cleanup_old_messages crowded_screen) = [3, 2]"
    by (simp add: e)
  have b: "messages crowded_screen = messages (cleanup_old_messages crowded_screen) @ [1]"
    unfolding a m by simp
  have c: "current_bubble (cleanup_old_messages crowded_screen) = Some 1"
    by (simp add: e m)
  from d a b c show ?thesis by blast
qed

subsection \<open>Sending\<close>

text \<open>
  C10. When the input text is empty or white space only, \<^verbatim>\<open>send_message\<close> changes
  nothing: the input text stays, the history stays, no sender thread is started and no
  demo answer is shown.
\<close>

theorem send_blank_noop:
  "\<forall>c\<in>set (text_input s). isspace c \<Longrightarrow> send_message t1 t2 s = s"
  by (simp add: send_message_def strip_all_space)

theorem send_blank_noop_witness:
  "(\<forall>c\<in>set (text_input (fresh_screen\<lparr> text_input := ''   '' \<rparr>)). isspace c) = True
   \<and> send_message 1000 1000 (fresh_screen\<lparr> text_input := ''   '' \<rparr>)
       = fresh_screen\<lparr> text_input := ''   '' \<rparr>
   \<and> send_message 1000 1000 fresh_screen = fresh_screen"
proof -
  have p: "\<forall>c\<in>set (text_input (fresh_screen\<lparr> text_input := ''   '' \<rparr>)). isspace c"
    by (simp add: isspace_def)
  have q: "\<forall>c\<in>set (text_input fresh_screen). isspace c"
    by (simp add: fresh_screen_def new_screen_def)
  from send_blank_noop [OF p, of 1000 1000] send_blank_noop [OF q, of 1000 1000]
  show ?thesis using p by simp
qed

text \<open>
  C4. The text to send is not empty after stripping and the backend is not available.
  Then \<^verbatim>\<open>send_message\<close> starts no sender thread, so that \<^verbatim>\<open>client.send_message\<close> is not
  called; two bubbles are created, the one of the user and the demo answer; the newest
  entry of the history is the demo answer, built from the stripped text.
\<close>

theorem send_offline_demo:
  assumes "strip (text_input s) \<noteq> []" and "\<not> backend_available s"
  shows "started_sends (send_message t1 t2 s) = started_sends s
       \<and> messages (send_message t1 t2 s) \<noteq> []
       \<and> hd (messages (send_message t1 t2 s)) = Suc (length (widgets s))
       \<and> length (widgets (send_message t1 t2 s)) = Suc (Suc (length (widgets s)))
       \<and> widgets (send_message t1 t2 s) ! hd (messages (send_message t1 t2 s))
           = \<lparr> label_text = demo_text (strip (text_input s)), is_user = False \<rparr>"
proof -
  define m where "m = strip (text_input s)"
  define s4 where "s4 = scroll_to_bottom False t1
      (add_widget (length (widgets s)) (snd (new_bubble m True (s\<lparr> text_input := [] \<rparr>))))"
  define s5 where "s5 = cleanup_old_messages s4"
  have w4: "widgets s4 = widgets s @ [\<lparr> label_text = m, is_user = True \<rparr>]"
    and b4: "backend_available s4 = backend_available s"
    and st4: "started_sends s4 = started_sends s"
    by (simp_all add: s4_def scroll_to_bottom_frame add_widget_def new_bubble_def)
  have w5: "widgets s5 = widgets s4" and b5: "backend_available s5 = backend_available s4"
    and st5: "started_sends s5 = started_sends s4"
    by (simp_all add: s5_def cleanup_old_messages_frame)
  have sm: "send_message t1 t2 s = show_demo_response m t2 s5"
    using assms b4 b5
    by (simp add: send_message_def m_def [symmetric] new_bubble_def s5_def s4_def Let_def)
  show ?thesis
    unfolding sm m_def [symmetric]
    by (simp add: show_demo_response_def new_bubble_def add_widget_def scroll_to_bottom_frame
          w5 w4 st5 st4 nth_append)
qed

theorem send_offline_demo_witness:
  "strip (text_input (fresh_screen\<lparr> text_input := '' hi '' \<rparr>)) = ''hi''
   \<and> \<not> backend_available (fresh_screen\<lparr> text_input := '' hi '' \<rparr>)
   \<and> started_sends (send_message 1000 1000 (fresh_screen\<lparr> text_input := '' hi '' \<rparr>)) = []
   \<and> hd (messages (send_message 1000 1000 (fresh_screen\<lparr> text_input := '' hi '' \<rparr>))) = 2
   \<and> widgets (send_message 1000 1000 (fresh_screen\<lparr> text_input := '' hi '' \<rparr>))
        ! hd (messages (send_message 1000 1000 (fresh_screen\<lparr> text_input := '' hi '' \<rparr>)))
       = \<lparr> label_text = ''Demo response to: '' @ [CHR 0x27] @ ''hi'' @ [CHR 0x27],
           is_user = False \<rparr>"
proof -
  let ?s = "fresh_screen\<lparr> text_input := '' hi '' \<rparr>"
  have st: "strip (text_input ?s) = ''hi''" by (simp add: strip_def isspace_def)
  then have p: "strip (text_input ?s) \<noteq> []" by simp
  have q: "\<not> backend_available ?s" by (simp add: fresh_screen_def new_screen_def)
  have w: "length (widgets ?s) = 1" "started_sends ?s = []"
    by (simp_all add: fresh_screen_def new_screen_def)
  have dt: "demo_text ''hi'' = ''Demo response to: '' @ [CHR 0x27] @ ''hi'' @ [CHR 0x27]"
    by (simp add: demo_text_def)
  note r = send_offline_demo [OF p q, of 1000 1000]
  from r have a: "started_sends (send_message 1000 1000 ?s) = []" using w by simp
  from r have b: "hd (messages (send_message 1000 1000 ?s)) = 2" using w by simp
  from r have c: "widgets (send_message 1000 1000 ?s) ! hd (messages (send_message 1000 1000 ?s))
       = \<lparr> label_text = ''Demo response to: '' @ [CHR 0x27] @ ''hi'' @ [CHR 0x27],
           is_user = False \<rparr>"
    unfolding st dt by blast
  from st q a b c show ?thesis by blast
qed

subsection \<open>The scroll throttle\<close>

text \<open>
  C5, as the claim states it, fails. The screen scrolled at time 1000 and the throttle
  is 0.1 s, so the window ends at 1000.1. A trigger at 1000.05 is throttled; the one
  scroll that it defers falls due at 1000.15, a throttle delay after the trigger and
  later than the end of the window.
\<close>

theorem deferred_scroll_after_window_boundary:
  "last_scroll_time throttle_probe = 1000
   \<and> scroll_throttle_delay throttle_probe = 1 / 10
   \<and> \<not> scroll_scheduled throttle_probe
   \<and> clock throttle_probe = []
   \<and> 100005 / 100 - last_scroll_time throttle_probe < scroll_throttle_delay throttle_probe
   \<and> clock (triggers [100005 / 100] throttle_probe) = [(100015 / 100, DoThrottledScroll)]
   \<and> last_scroll_time throttle_probe + scroll_throttle_delay throttle_probe < 100015 / 100"
  by (simp add: screen_defs)

text \<open>
  C5, amended. The flag \<^verbatim>\<open>_scroll_scheduled\<close> agrees with the clock (as it does on a new
  screen and after every step). One or more unforced triggers arrive, each less than the
  throttle delay after the last performed scroll. Then none of them scrolls; one
  deferred scroll is on the clock afterwards, never more: the one that was there
  already, or else a new one, due a throttle delay after the first of the triggers (not
  at the end of the window). When the clock runs it, one scroll is performed, no
  deferred scroll is left on the clock and the flag is cleared.
\<close>

theorem throttled_triggers_one_scroll:
  assumes "ts \<noteq> []"
    and "\<forall>t\<in>set ts. t - last_scroll_time s < scroll_throttle_delay s"
    and "scroll_inv s"
  shows "scroll_count (triggers ts s) = scroll_count s
       \<and> clock (triggers ts s) =
           (if scroll_scheduled s then clock s
            else clock s @ [(hd ts + scroll_throttle_delay s, DoThrottledScroll)])
       \<and> scheduled DoThrottledScroll (triggers ts s) = 1
       \<and> scroll_count (clock_fire DoThrottledScroll now (triggers ts s)) = Suc (scroll_count s)
       \<and> scheduled DoThrottledScroll (clock_fire DoThrottledScroll now (triggers ts s)) = 0
       \<and> \<not> scroll_scheduled (clock_fire DoThrottledScroll now (triggers ts s))"
proof -
  from assms(1) obtain t ts' where ts: "ts = t # ts'" by (cases ts) auto
  define s1 where "s1 = scroll_to_bottom False t s"
  have t1: "triggers ts s = triggers ts' s1" by (simp add: triggers_def ts s1_def)
  have thr: "t - last_scroll_time s < scroll_throttle_delay s" using assms(2) ts by simp
  have s1: "scroll_scheduled s1" "last_scroll_time s1 = last_scroll_time s"
    "scroll_throttle_delay s1 = scroll_throttle_delay s" "scroll_count s1 = scroll_count s"
    "clock s1 = (if scroll_scheduled s then clock s
                 else clock s @ [(t + scroll_throttle_delay s, DoThrottledScroll)])"
    using thr by (simp_all add: s1_def scroll_to_bottom_def schedule_once_def)
  have "\<forall>t\<in>set ts'. t - last_scroll_time s1 < scroll_throttle_delay s1"
    using assms(2) ts s1 by simp
  from triggers_throttled [OF this s1(1)] have eq: "triggers ts s = s1" using t1 by simp
  have c1: "count_task DoThrottledScroll (clock s1) = 1"
    using assms(3) s1(5) by (auto simp: scroll_inv_def scheduled_def count_task_snoc)
  then have mem: "DoThrottledScroll \<in> snd ` set (clock s1)" by (simp add: count_task_pos)
  show ?thesis
    unfolding eq using s1 c1 mem ts
    by (simp add: scheduled_def clock_fire_def do_throttled_scroll_def do_scroll_def
          count_task_unschedule)
qed

text \<open>
  Three triggers within 0.1 s of the scroll at time 1000: one deferred scroll, due at
  1000.12, and one scroll when it runs.
\<close>

theorem throttled_triggers_one_scroll_witness:
  "[100002 / 100, 100005 / 100, 100007 / 100] \<noteq> ([] :: real list)
   \<and> (\<forall>t\<in>set [100002 / 100, 100005 / 100, 100007 / 100].
         t - last_scroll_time throttle_probe < scroll_throttle_delay throttle_probe) = True
   \<and> scroll_inv throttle_probe
   \<and> scroll_count throttle_probe = 1
   \<and> scroll_count (triggers [100002 / 100, 100005 / 100, 100007 / 100] throttle_probe) = 1
   \<and> clock (triggers [100002 / 100, 100005 / 100, 100007 / 100] throttle_probe)
       = [(100012 / 100, DoThrottledScroll)]
   \<and> scroll_count (clock_fire DoThrottledScroll (100012 / 100)
        (triggers [100002 / 100, 100005 / 100, 100007 / 100] throttle_probe)) = 2"
proof -
  have v: "last_scroll_time throttle_probe = 1000" "scroll_throttle_delay throttle_probe = 1 / 10"
    "\<not> scroll_scheduled throttle_probe" "clock throttle_probe = []"
    "scroll_count throttle_probe = 1"
    by (simp_all add: screen_defs)
  have p1: "[100002 / 100, 100005 / 100, 100007 / 100] \<noteq> ([] :: real list)" by simp
  have p2: "\<forall>t\<in>set [100002 / 100, 100005 / 100, 100007 / 100].
         t - last_scroll_time throttle_probe < scroll_throttle_delay throttle_probe"
    unfolding v by simp
  have p3: "scroll_inv throttle_probe"
    by (simp add: scroll_inv_def scheduled_def count_task_def v)
  note r = throttled_triggers_one_scroll [OF p1 p2 p3, of "100012 / 100"]
  from r have a: "scroll_count (triggers [100002 / 100, 100005 / 100, 100007 / 100] throttle_probe) = 1"
    using v by simp
  from r have b: "clock (triggers [100002 / 100, 100005 / 100, 100007 / 100] throttle_probe)
       = [(100012 / 100, DoThrottledScroll)]"
    using v by simp
  from r have c: "scroll_count (clock_fire DoThrottledScroll (100012 / 100)
        (triggers [100002 / 100, 100005 / 100, 100007 / 100] throttle_probe)) = 2"
    using v by simp
  from p1 p2 p3 v(5) a b c show ?thesis by simp
qed


end
